theory Spec2Isabelle
  imports Complex_Main
begin

section \<open>JavaScript numbers\<close>

text \<open>
  A JavaScript number is an IEEE 754 binary64 value: a finite double, one of the two
  infinities, or \<open>NaN\<close>. A finite value is carried as the real number it denotes. The two
  zeros are one value here: the module never divides by zero (the only division is
  guarded by \<open>len_sq != 0\<close>) and compares numbers only with \<open>==\<close>, \<open><\<close> and \<open><=\<close>, for
  which the zeros are equal.
\<close>

datatype number = Fin real | PInf | NInf | NaN

definition two_p :: "int \<Rightarrow> real" where
  "two_p e = 2 powr of_int e"

text \<open>Rounding to the nearest integer, ties to the even one.\<close>

definition rne :: "real \<Rightarrow> int" where
  "rne q = (let f = \<lfloor>q\<rfloor>; r = q - of_int f
            in if r < 1 / 2 then f else if 1 / 2 < r then f + 1
               else if even f then f else f + 1)"

text \<open>
  The exponent of the unit in the last place of the doubles around \<open>v\<close>: 53 significant
  bits, and the subnormal spacing \<open>2 ^ (- 1074)\<close> below the normal range.
\<close>

definition ulp_exp :: "real \<Rightarrow> int" where
  "ulp_exp v = max (\<lfloor>log 2 \<bar>v\<bar>\<rfloor> - 52) (- 1074)"

text \<open>
  Rounding a real result to binary64, to nearest with ties to even; a result that
  rounds to \<open>2 ^ 1024\<close> or beyond overflows to an infinity.
\<close>

definition rnd :: "real \<Rightarrow> number" where
  "rnd v = (if v = 0 then Fin 0
            else let e = ulp_exp v;
                     y = of_int (rne (v / two_p e)) * two_p e
                 in if two_p 1024 \<le> \<bar>y\<bar> then (if v < 0 then NInf else PInf) else Fin y)"

definition negative :: "number \<Rightarrow> bool" where
  "negative a = (case a of Fin v \<Rightarrow> v < 0 | PInf \<Rightarrow> False | NInf \<Rightarrow> True | NaN \<Rightarrow> False)"

fun fl_neg :: "number \<Rightarrow> number" where
  "fl_neg (Fin v) = Fin (- v)"
| "fl_neg PInf = NInf"
| "fl_neg NInf = PInf"
| "fl_neg NaN = NaN"

fun fl_add :: "number \<Rightarrow> number \<Rightarrow> number" where
  "fl_add (Fin v) (Fin w) = rnd (v + w)"
| "fl_add NaN b = NaN"
| "fl_add a NaN = NaN"
| "fl_add PInf NInf = NaN"
| "fl_add NInf PInf = NaN"
| "fl_add PInf b = PInf"
| "fl_add a PInf = PInf"
| "fl_add NInf b = NInf"
| "fl_add a NInf = NInf"

definition fl_sub :: "number \<Rightarrow> number \<Rightarrow> number" where
  "fl_sub a b = fl_add a (fl_neg b)"

fun fl_mul :: "number \<Rightarrow> number \<Rightarrow> number" where
  "fl_mul (Fin v) (Fin w) = rnd (v * w)"
| "fl_mul NaN b = NaN"
| "fl_mul a NaN = NaN"
| "fl_mul a b = (if a = Fin 0 \<or> b = Fin 0 then NaN
                 else if negative a = negative b then PInf else NInf)"

text \<open>The quotient by zero is never computed by the module; it is given for a positive
  zero.\<close>

fun fl_div :: "number \<Rightarrow> number \<Rightarrow> number" where
  "fl_div (Fin v) (Fin w) =
     (if w = 0 then (if v = 0 then NaN else if v < 0 then NInf else PInf) else rnd (v / w))"
| "fl_div NaN b = NaN"
| "fl_div a NaN = NaN"
| "fl_div (Fin v) b = Fin 0"
| "fl_div a (Fin w) = (if negative a = (w < 0) then PInf else NInf)"
| "fl_div a b = NaN"

fun fl_sqrt :: "number \<Rightarrow> number" where
  "fl_sqrt (Fin v) = (if v < 0 then NaN else rnd (sqrt v))"
| "fl_sqrt PInf = PInf"
| "fl_sqrt NInf = NaN"
| "fl_sqrt NaN = NaN"

fun fl_abs :: "number \<Rightarrow> number" where
  "fl_abs (Fin v) = Fin \<bar>v\<bar>"
| "fl_abs PInf = PInf"
| "fl_abs NInf = PInf"
| "fl_abs NaN = NaN"

fun fl_less :: "number \<Rightarrow> number \<Rightarrow> bool" where
  "fl_less (Fin v) (Fin w) = (v < w)"
| "fl_less NaN b = False"
| "fl_less a NaN = False"
| "fl_less NInf b = (b \<noteq> NInf)"
| "fl_less a PInf = (a \<noteq> PInf)"
| "fl_less a b = False"

fun fl_le :: "number \<Rightarrow> number \<Rightarrow> bool" where
  "fl_le (Fin v) (Fin w) = (v \<le> w)"
| "fl_le NaN b = False"
| "fl_le a NaN = False"
| "fl_le NInf b = True"
| "fl_le a PInf = True"
| "fl_le a b = False"

definition fl_eq :: "number \<Rightarrow> number \<Rightarrow> bool" where
  "fl_eq a b \<longleftrightarrow> a \<noteq> NaN \<and> a = b"

definition MAX_VALUE :: number where
  "MAX_VALUE = Fin ((2 - two_p (- 52)) * two_p 1023)"

section \<open>Data model\<close>

text \<open>
  The geometry module works on \<open>fabric.XY\<close> values, objects with the numeric fields \<open>x\<close>
  and \<open>y\<close> (here \<open>xc\<close> and \<open>yc\<close>), and on \<open>fabric.Polygon\<close> objects, of which it reads
  the fields \<open>points\<close>, \<open>left\<close> and \<open>top\<close> (here \<open>top'\<close>).
\<close>

record XY =
  xc :: number
  yc :: number

record Polygon =
  points :: "XY list"
  left :: number
  top' :: number

text \<open>
  The methods of \<open>fabric.Point\<close> that the module calls; \<open>fabric\<close> is a library outside
  the repository, and its methods work on the coordinates one by one. The constructor
  copies the fields of its argument; called with \<open>undefined\<close> it takes its default and
  builds the origin.
\<close>

definition origin :: XY where
  "origin = \<lparr>xc = Fin 0, yc = Fin 0\<rparr>"

definition new_Point :: "XY option \<Rightarrow> XY" where
  "new_Point arg0 = (case arg0 of None \<Rightarrow> origin | Some p \<Rightarrow> \<lparr>xc = xc p, yc = yc p\<rparr>)"

definition Point_add :: "XY \<Rightarrow> XY \<Rightarrow> XY" where
  "Point_add p q = \<lparr>xc = fl_add (xc p) (xc q), yc = fl_add (yc p) (yc q)\<rparr>"

definition Point_subtract :: "XY \<Rightarrow> XY \<Rightarrow> XY" where
  "Point_subtract p q = \<lparr>xc = fl_sub (xc p) (xc q), yc = fl_sub (yc p) (yc q)\<rparr>"

definition Point_eq :: "XY \<Rightarrow> XY \<Rightarrow> bool" where
  "Point_eq p q \<longleftrightarrow> fl_eq (xc p) (xc q) \<and> fl_eq (yc p) (yc q)"

text \<open>Reading an array element: \<open>undefined\<close> (here \<open>None\<close>) outside the array.\<close>

definition array_get :: "'a list \<Rightarrow> nat \<Rightarrow> 'a option" where
  "array_get xs i = (if i < length xs then Some (xs ! i) else None)"

section \<open>Projection onto a segment\<close>

definition closestPointOnSegment :: "XY \<Rightarrow> XY \<Rightarrow> XY \<Rightarrow> XY \<times> number" where
  "closestPointOnSegment a b c =
     (let A = fl_sub (xc c) (xc a);
          B = fl_sub (yc c) (yc a);
          C = fl_sub (xc b) (xc a);
          D = fl_sub (yc b) (yc a);
          dot = fl_add (fl_mul A C) (fl_mul B D);
          len_sq = fl_add (fl_mul C C) (fl_mul D D);
          param = (if \<not> fl_eq len_sq (Fin 0) then fl_div dot len_sq else Fin (- 1));
          (xx, yy) = (if fl_less param (Fin 0) then (xc a, yc a)
                      else if fl_less (Fin 1) param then (xc b, yc b)
                      else (fl_add (xc a) (fl_mul param C), fl_add (yc a) (fl_mul param D)));
          dx = fl_sub (xc c) xx;
          dy = fl_sub (yc c) yy
      in (\<lparr>xc = xx, yc = yy\<rparr>, fl_sqrt (fl_add (fl_mul dx dx) (fl_mul dy dy))))"

section \<open>Projection onto a polygon\<close>

text \<open>
  The three variables that the \<open>forEach\<close> callback of \<open>closestPointOnPolygon\<close> updates.
  \<open>closestPointOnPoly\<close> starts as \<open>polyPoints[0]\<close>, which is \<open>undefined\<close> for an empty
  array.
\<close>

record projection =
  closestPointOnPoly :: "XY option"
  shortestDist :: number
  segmentIndex :: nat

definition prev_index :: "nat \<Rightarrow> nat \<Rightarrow> nat" where
  "prev_index len index = (if index = 0 then len else index) - 1"

text \<open>One call of the callback, for the vertex at \<open>index\<close>.\<close>

definition visit :: "XY list \<Rightarrow> XY \<Rightarrow> projection \<Rightarrow> nat \<Rightarrow> projection" where
  "visit polyPoints point st index =
     (let p1 = polyPoints ! index;
          prev = prev_index (length polyPoints) index;
          p2 = polyPoints ! prev;
          line = Point_subtract (new_Point (Some p2)) p1
      in if Point_eq line origin then st
         else let (closestPoint, distance) = closestPointOnSegment p1 p2 point
              in if fl_le distance (shortestDist st)
                 then \<lparr>closestPointOnPoly = Some closestPoint,
                       shortestDist = distance,
                       segmentIndex = prev\<rparr>
                 else st)"

definition forEach_visit :: "XY list \<Rightarrow> XY \<Rightarrow> projection" where
  "forEach_visit polyPoints point =
     foldl (visit polyPoints point)
       \<lparr>closestPointOnPoly = array_get polyPoints 0,
        shortestDist = MAX_VALUE,
        segmentIndex = 0\<rparr>
       [0 ..< length polyPoints]"

definition closestPointOnPolygon :: "Polygon \<Rightarrow> XY \<Rightarrow> XY \<times> nat" where
  "closestPointOnPolygon poly scenePoint =
     (let point = Point_subtract scenePoint \<lparr>xc = left poly, yc = top' poly\<rparr>;
          polyPoints = points poly;
          st = forEach_visit polyPoints point
      in (Point_add (new_Point (closestPointOnPoly st)) \<lparr>xc = left poly, yc = top' poly\<rparr>,
          segmentIndex st))"

section \<open>Splitting a polygon along a cut\<close>

text \<open>
  \<open>cutPolygon\<close> compares objects by reference (\<open>!=\<close> on two objects, \<open>indexOf\<close>), so every
  object it creates carries the place of its creation: the \<open>i\<close>-th element of the mapped
  array \<open>polyPoints\<close>, the point returned by the first call of \<open>closestPointOnPolygon\<close>
  and the point returned by the second call. All of them are fresh objects, hence
  pairwise distinct references.
\<close>

datatype ref = PolyPointRef nat | StartPointRef | EndPointRef

type_synonym obj = "ref \<times> XY"

datatype error = InvalidCut  \<comment> \<open>\<open>throw "cut path is too short"\<close>\<close>

text \<open>\<open>Array.prototype.indexOf\<close> with strict equality on objects: the first position
  holding the same reference, \<open>-1\<close> when there is none.\<close>

fun indexOf_from :: "obj list \<Rightarrow> obj \<Rightarrow> int \<Rightarrow> int" where
  "indexOf_from [] v k = - 1"
| "indexOf_from (u # us) v k = (if fst u = fst v then k else indexOf_from us v (k + 1))"

definition indexOf :: "obj list \<Rightarrow> obj \<Rightarrow> int" where
  "indexOf xs v = indexOf_from xs v 0"

text \<open>\<open>Array.prototype.slice(start, end)\<close>: a negative bound counts from the end, and both
  bounds are clamped to the array.\<close>

definition slice :: "'a list \<Rightarrow> int \<Rightarrow> int \<Rightarrow> 'a list" where
  "slice xs start end' =
     (let len = int (length xs);
          k = (if start < 0 then max (len + start) 0 else min start len);
          final = (if end' < 0 then max (len + end') 0 else min end' len)
      in take (nat (final - k)) (drop (nat k) xs))"

text \<open>The two snapped end points of the cut, each with its segment index.\<close>

definition snapped :: "Polygon \<Rightarrow> XY list \<Rightarrow> (obj \<times> nat) \<times> (obj \<times> nat)" where
  "snapped poly cutPath =
     (let cutStart = new_Point (Some (cutPath ! 0));
          cutEnd = new_Point (Some (cutPath ! (length cutPath - 1)));
          (startPoint, startSegmentIndex) = closestPointOnPolygon poly cutStart;
          (endPoint, endSegmentIndex) = closestPointOnPolygon poly cutEnd
      in (((StartPointRef, startPoint), startSegmentIndex),
          ((EndPointRef, endPoint), endSegmentIndex)))"

definition translated :: "Polygon \<Rightarrow> obj list" where
  "translated poly =
     map (\<lambda>(i, p). (PolyPointRef i, \<lparr>xc = fl_add (xc p) (left poly), yc = fl_add (yc p) (top' poly)\<rparr>))
       (enumerate 0 (points poly))"

text \<open>The body of the \<open>for\<close> loop that gathers the exterior points, for one \<open>i\<close>.\<close>

definition gather_step ::
  "obj list \<Rightarrow> obj \<Rightarrow> nat \<Rightarrow> obj \<Rightarrow> nat \<Rightarrow> obj list \<Rightarrow> nat \<Rightarrow> obj list" where
  "gather_step polyPoints startPoint startSegmentIndex endPoint endSegmentIndex vertices0 i =
     (let vertices = vertices0 @ [polyPoints ! i]
      in if startSegmentIndex = i \<and> endSegmentIndex = i
            \<and> fst startPoint \<noteq> fst (polyPoints ! i)
            \<and> fst endPoint \<noteq> fst (polyPoints ! i)
         then
           let startDist =
                 fl_add (fl_abs (fl_sub (xc (snd startPoint)) (xc (snd (polyPoints ! i)))))
                        (fl_abs (fl_sub (yc (snd startPoint)) (yc (snd (polyPoints ! i)))));
               endDist =
                 fl_add (fl_abs (fl_sub (xc (snd endPoint)) (xc (snd (polyPoints ! i)))))
                        (fl_abs (fl_sub (yc (snd endPoint)) (yc (snd (polyPoints ! i)))))
           in if fl_less startDist endDist then vertices @ [startPoint, endPoint]
              else vertices @ [endPoint, startPoint]
         else if startSegmentIndex = i \<and> fst startPoint \<noteq> fst (polyPoints ! i)
         then vertices @ [startPoint]
         else if endSegmentIndex = i \<and> fst endPoint \<noteq> fst (polyPoints ! i)
         then vertices @ [endPoint]
         else vertices)"

definition gather :: "obj list \<Rightarrow> obj \<Rightarrow> nat \<Rightarrow> obj \<Rightarrow> nat \<Rightarrow> obj list" where
  "gather polyPoints startPoint startSegmentIndex endPoint endSegmentIndex =
     foldl (gather_step polyPoints startPoint startSegmentIndex endPoint endSegmentIndex)
       [] [0 ..< length polyPoints]"

text \<open>The augmented vertex list of a cut, as \<open>cutPolygon\<close> builds it.\<close>

definition cut_vertices :: "Polygon \<Rightarrow> XY list \<Rightarrow> obj list" where
  "cut_vertices poly cutPath =
     (let ((startPoint, startSegmentIndex), (endPoint, endSegmentIndex)) = snapped poly cutPath
      in gather (translated poly) startPoint startSegmentIndex endPoint endSegmentIndex)"

definition cutPolygon :: "Polygon \<Rightarrow> XY list \<Rightarrow> error + (XY list \<times> XY list)" where
  "cutPolygon poly cutPath =
     (if length cutPath < 2 then Inl InvalidCut
      else
        let ((startPoint, startSegmentIndex), (endPoint, endSegmentIndex)) = snapped poly cutPath;
            vertices = cut_vertices poly cutPath;
            startVerticeIndex = indexOf vertices startPoint;
            endVerticeIndex = indexOf vertices endPoint;
            (shape1, shape2) =
              (if startVerticeIndex < endVerticeIndex
               then (slice vertices startVerticeIndex (endVerticeIndex + 1),
                     slice vertices endVerticeIndex (int (length vertices))
                       @ slice vertices 0 (startVerticeIndex + 1))
               else (slice vertices startVerticeIndex (int (length vertices))
                       @ slice vertices 0 (endVerticeIndex + 1),
                     slice vertices endVerticeIndex (startVerticeIndex + 1)));
            cutReverse = rev (slice cutPath 1 (- 1))
        in Inr (map snd shape1 @ cutReverse, map snd shape2 @ slice cutPath 1 (- 1)))"

section \<open>Specification vocabulary\<close>

text \<open>
  The finite doubles: the reals \<open>m * 2 ^ e\<close> with \<open>|m| < 2 ^ 53\<close>, \<open>e \<ge> - 1074\<close> and
  magnitude below \<open>2 ^ 1024\<close>.
\<close>

definition is_double :: "real \<Rightarrow> bool" where
  "is_double v \<longleftrightarrow>
     (\<exists>m e. v = of_int m * two_p e \<and> \<bar>m\<bar> < 2 ^ 53 \<and> - 1074 \<le> e) \<and> \<bar>v\<bar> < two_p 1024"

text \<open>The point with the finite coordinates \<open>u\<close> and \<open>v\<close>, and the real value of a finite
  number.\<close>

definition pt :: "real \<Rightarrow> real \<Rightarrow> XY" where
  "pt u v = \<lparr>xc = Fin u, yc = Fin v\<rparr>"

definition val :: "number \<Rightarrow> real" where
  "val a = (case a of Fin v \<Rightarrow> v | PInf \<Rightarrow> 0 | NInf \<Rightarrow> 0 | NaN \<Rightarrow> 0)"




definition euclid :: "XY \<Rightarrow> XY \<Rightarrow> real" where
  "euclid p q = sqrt ((val (xc p) - val (xc q))\<^sup>2 + (val (yc p) - val (yc q))\<^sup>2)"

text \<open>
  The real values of the results that \<open>closestPointOnSegment\<close> computes one after the
  other: first those of the last three lines, the distance from \<open>c\<close> to the point \<open>p\<close>,
  then all of them. When each of them is a double, no operation rounds.
\<close>

definition dist_steps :: "XY \<Rightarrow> XY \<Rightarrow> real list" where
  "dist_steps c p =
     (let dx = val (xc c) - val (xc p);
          dy = val (yc c) - val (yc p)
      in [dx, dy, dx * dx, dy * dy, dx * dx + dy * dy, sqrt (dx * dx + dy * dy)])"


text \<open>The distance from \<open>c\<close> to \<open>p\<close> as the last lines of \<open>closestPointOnSegment\<close> compute
  it.\<close>

definition fl_dist :: "XY \<Rightarrow> XY \<Rightarrow> number" where
  "fl_dist c p =
     fl_sqrt (fl_add (fl_mul (fl_sub (xc c) (xc p)) (fl_sub (xc c) (xc p)))
                     (fl_mul (fl_sub (yc c) (yc p)) (fl_sub (yc c) (yc p))))"

text \<open>The polygon's vertex \<open>i\<close> in scene coordinates, as \<open>cutPolygon\<close> translates it.\<close>

definition scene_vertex :: "Polygon \<Rightarrow> nat \<Rightarrow> XY" where
  "scene_vertex poly i =
     \<lparr>xc = fl_add (xc (points poly ! i)) (left poly),
      yc = fl_add (yc (points poly ! i)) (top' poly)\<rparr>"

text \<open>The query point in the polygon's own coordinates, and the polygon's offset.\<close>

definition offset :: "Polygon \<Rightarrow> XY" where
  "offset poly = \<lparr>xc = left poly, yc = top' poly\<rparr>"

definition local_point :: "Polygon \<Rightarrow> XY \<Rightarrow> XY" where
  "local_point poly q = Point_subtract q \<lparr>xc = left poly, yc = top' poly\<rparr>"

text \<open>The index after \<open>i\<close>, wrapping to the first index after the last one.\<close>

definition next_index :: "nat \<Rightarrow> nat \<Rightarrow> nat" where
  "next_index len i = (if i = len - 1 then 0 else i + 1)"

text \<open>The edge that the callback looks at when it visits \<open>j\<close>: what the segment
  projection returns for it, and whether the callback skips it as degenerate.\<close>

definition edge_visited :: "XY list \<Rightarrow> XY \<Rightarrow> nat \<Rightarrow> XY \<times> number" where
  "edge_visited pts p j = closestPointOnSegment (pts ! j) (pts ! prev_index (length pts) j) p"

definition degenerate :: "XY list \<Rightarrow> nat \<Rightarrow> bool" where
  "degenerate pts j \<longleftrightarrow>
     Point_eq (Point_subtract (pts ! prev_index (length pts) j) (pts ! j)) origin"

text \<open>What holds of the loop variables of \<open>closestPointOnPolygon\<close> after every call of
  the callback: either no edge has been accepted, or the variables are those of an edge
  that the callback visited.\<close>

definition proj_inv :: "XY list \<Rightarrow> XY \<Rightarrow> projection \<Rightarrow> bool" where
  "proj_inv pts p st \<longleftrightarrow>
     segmentIndex st < length pts \<and>
     (closestPointOnPoly st = Some (pts ! 0) \<and> segmentIndex st = 0
      \<or> closestPointOnPoly st =
           Some (fst (closestPointOnSegment
                        (pts ! next_index (length pts) (segmentIndex st))
                        (pts ! segmentIndex st) p)))"

text \<open>The polygons and points of the scenarios: the square of the specification with
  zero offset, a square of side \<open>2 ^ 600\<close>, the length \<open>2 ^ (- 600)\<close>, and a triangle
  that is two subnormal steps high.\<close>

definition square :: Polygon where
  "square = \<lparr>points = [pt 0 0, pt 300 0, pt 300 300, pt 0 300], left = Fin 0, top' = Fin 0\<rparr>"

definition huge :: real where
  "huge = two_p 600"



definition tiny :: real where
  "tiny = two_p (- 1074)"


text \<open>What the loop of \<open>cutPolygon\<close> pushes after vertex \<open>i\<close>, given that the two
  snapped points are objects of their own.\<close>

definition manhattan :: "XY \<Rightarrow> XY \<Rightarrow> number" where
  "manhattan p q = fl_add (fl_abs (fl_sub (xc p) (xc q))) (fl_abs (fl_sub (yc p) (yc q)))"

definition inserted :: "obj list \<Rightarrow> obj \<Rightarrow> nat \<Rightarrow> obj \<Rightarrow> nat \<Rightarrow> nat \<Rightarrow> obj list" where
  "inserted polyPoints S si E ei i =
     (if si = i \<and> ei = i then
        (if fl_less (manhattan (snd S) (snd (polyPoints ! i)))
                    (manhattan (snd E) (snd (polyPoints ! i)))
         then [S, E] else [E, S])
      else if si = i then [S]
      else if ei = i then [E]
      else [])"

text \<open>The polygon's vertices in scene coordinates.\<close>

definition scene_vertices :: "Polygon \<Rightarrow> XY list" where
  "scene_vertices poly = map (scene_vertex poly) [0 ..< length (points poly)]"

text \<open>The closed range \<open>xs[i..j]\<close>, and a path without its first and last points.\<close>

definition closed_range :: "'a list \<Rightarrow> nat \<Rightarrow> nat \<Rightarrow> 'a list" where
  "closed_range xs i j = map (nth xs) [i ..< Suc j]"

definition interior :: "'a list \<Rightarrow> 'a list" where
  "interior c = butlast (tl c)"

text \<open>The rectangle with the opposite corners \<open>(x0, y0)\<close> and \<open>(x1, y1)\<close> and sides parallel
  to the axes: its corners in the winding of the square, the region it covers, and the
  area that a vertex loop encloses (the shoelace formula).\<close>

definition rectangle :: "real \<Rightarrow> real \<Rightarrow> real \<Rightarrow> real \<Rightarrow> XY list" where
  "rectangle x0 y0 x1 y1 = [pt x0 y0, pt x1 y0, pt x1 y1, pt x0 y1]"

definition rect_region :: "real \<Rightarrow> real \<Rightarrow> real \<Rightarrow> real \<Rightarrow> XY set" where
  "rect_region x0 y0 x1 y1 = {p. \<exists>u v. p = pt u v \<and> x0 \<le> u \<and> u \<le> x1 \<and> y0 \<le> v \<and> v \<le> y1}"

definition loop_area :: "XY list \<Rightarrow> real" where
  "loop_area ps =
     \<bar>\<Sum>i < length ps. val (xc (ps ! i)) * val (yc (ps ! next_index (length ps) i))
                        - val (xc (ps ! next_index (length ps) i)) * val (yc (ps ! i))\<bar> / 2"

section \<open>Rounding\<close>

lemma two_p_pos: "0 < two_p e"
  by (simp add: two_p_def)

lemma two_p_add: "two_p (a + b) = two_p a * two_p b"
  by (simp add: two_p_def powr_add)

lemma two_p_diff: "two_p (a - b) = two_p a / two_p b"
  by (simp add: two_p_def powr_diff)

lemma two_p_nat: "two_p (int n) = 2 ^ n"
  by (simp add: two_p_def powr_realpow)

lemma two_p_0: "two_p 0 = 1"
  by (simp add: two_p_def)

lemma two_p_less: "a < b \<Longrightarrow> two_p a < two_p b"
  by (simp add: two_p_def)

lemma two_p_le: "a \<le> b \<Longrightarrow> two_p a \<le> two_p b"
  by (simp add: two_p_def)

lemma two_p_53: "two_p 53 = 9007199254740992"
  using two_p_nat[of 53] by simp

lemma log_less_two_p:
  assumes "v \<noteq> 0" and "\<bar>v\<bar> < two_p e"
  shows "\<lfloor>log 2 \<bar>v\<bar>\<rfloor> < e"
proof -
  have "log 2 \<bar>v\<bar> < of_int e"
    using assms by (simp add: log_less_iff two_p_def)
  then show ?thesis by (simp only: floor_less_iff)
qed

lemma log_ge_two_p:
  assumes "two_p e \<le> \<bar>v\<bar>"
  shows "e \<le> \<lfloor>log 2 \<bar>v\<bar>\<rfloor>"
proof -
  have "0 < \<bar>v\<bar>" using assms two_p_pos[of e] by linarith
  then have "of_int e \<le> log 2 \<bar>v\<bar>"
    using assms by (simp add: le_log_iff two_p_def)
  then show ?thesis by (simp only: le_floor_iff)
qed

lemma two_p_floor_log:
  assumes "v \<noteq> 0"
  shows "two_p \<lfloor>log 2 \<bar>v\<bar>\<rfloor> \<le> \<bar>v\<bar>"
  using assms floor_log_eq_powr_iff[of "\<bar>v\<bar>" 2 "\<lfloor>log 2 \<bar>v\<bar>\<rfloor>"]
  by (simp add: two_p_def)

lemma rne_of_int: "rne (of_int n) = n"
  by (simp add: rne_def)

lemma rne_bounds: "\<lfloor>q\<rfloor> \<le> rne q \<and> rne q \<le> \<lfloor>q\<rfloor> + 1"
  by (simp add: rne_def Let_def)


lemma rne_abs_ge:
  assumes "of_int n \<le> \<bar>q\<bar>" and "0 \<le> n"
  shows "n \<le> \<bar>rne q\<bar>"
proof (cases "0 \<le> q")
  case True
  then have "of_int n \<le> q" using assms by simp
  then have "n \<le> \<lfloor>q\<rfloor>" by (simp only: le_floor_iff)
  then show ?thesis using rne_bounds[of q] by linarith
next
  case False
  then have le: "q \<le> of_int (- n)" using assms by simp
  have "rne q \<le> - n"
  proof (cases "q = of_int (- n)")
    case True
    show ?thesis unfolding True rne_of_int by simp
  next
    case False
    with le have "q < of_int (- n)" by linarith
    then have "\<lfloor>q\<rfloor> < - n" by (simp only: floor_less_iff)
    then show ?thesis using rne_bounds[of q] by linarith
  qed
  then show ?thesis by linarith
qed

text \<open>A result that is a double is not rounded.\<close>

lemma rnd_exact:
  assumes "is_double v"
  shows "rnd v = Fin v"
proof (cases "v = 0")
  case True
  then show ?thesis by (simp add: rnd_def)
next
  case False
  from assms obtain m e where v: "v = of_int m * two_p e"
    and m: "\<bar>m\<bar> < 2 ^ 53" and e: "- 1074 \<le> e" and fin: "\<bar>v\<bar> < two_p 1024"
    unfolding is_double_def by blast
  define u where "u = ulp_exp v"
  have "real_of_int \<bar>m\<bar> < real_of_int (2 ^ 53)" using m by (simp only: of_int_less_iff)
  then have "real_of_int \<bar>m\<bar> < two_p 53" by (simp add: two_p_53)
  then have "real_of_int \<bar>m\<bar> * two_p e < two_p 53 * two_p e"
    using two_p_pos[of e] by (simp only: mult_less_cancel_right_pos)
  moreover have "\<bar>v\<bar> = real_of_int \<bar>m\<bar> * two_p e"
    using two_p_pos[of e] by (simp add: v abs_mult)
  ultimately have "\<bar>v\<bar> < two_p (e + 53)" by (simp add: two_p_add mult.commute)
  then have "\<lfloor>log 2 \<bar>v\<bar>\<rfloor> < e + 53" using False by (rule log_less_two_p[rotated])
  then have "u \<le> e" using e by (simp add: u_def ulp_exp_def)
  then obtain k :: nat where k: "e = u + int k" by (metis zle_iff_zadd)
  have "v / two_p u = of_int m * two_p (int k)"
    using two_p_pos[of u] by (simp add: v k two_p_add)
  also have "\<dots> = of_int (m * 2 ^ k)" by (simp add: two_p_nat)
  finally have q: "v / two_p u = of_int (m * 2 ^ k)" .
  have "of_int (rne (v / two_p u)) * two_p u = v / two_p u * two_p u"
    unfolding q rne_of_int ..
  also have "\<dots> = v" using two_p_pos[of u] by simp
  finally have y: "of_int (rne (v / two_p u)) * two_p u = v" .
  show ?thesis
    using False fin by (simp add: rnd_def Let_def u_def[symmetric] y)
qed


text \<open>Overflow: a result of magnitude \<open>2 ^ 1024\<close> or more rounds to an infinity.\<close>

lemma rnd_overflow:
  assumes "two_p 1024 \<le> \<bar>v\<bar>"
  shows "rnd v = (if v < 0 then NInf else PInf)"
proof -
  have v0: "v \<noteq> 0" using assms two_p_pos[of 1024] by auto
  define k where "k = \<lfloor>log 2 \<bar>v\<bar>\<rfloor>"
  have k: "1024 \<le> k" unfolding k_def using assms by (rule log_ge_two_p)
  then have u: "ulp_exp v = k - 52" by (simp add: ulp_exp_def k_def)
  have lo: "two_p k \<le> \<bar>v\<bar>" unfolding k_def using v0 by (rule two_p_floor_log)
  define q where "q = v / two_p (k - 52)"
  have "\<bar>q\<bar> = \<bar>v\<bar> / two_p (k - 52)"
    using two_p_pos[of "k - 52"] by (simp add: q_def)
  moreover have "two_p k / two_p (k - 52) \<le> \<bar>v\<bar> / two_p (k - 52)"
    using lo two_p_pos[of "k - 52"] by (simp only: divide_right_mono less_imp_le)
  moreover have "two_p k / two_p (k - 52) = two_p 52"
    by (simp add: two_p_diff[symmetric])
  moreover have "two_p 52 = of_int (2 ^ 52)"
    using two_p_nat[of 52] by simp
  ultimately have "of_int (2 ^ 52) \<le> \<bar>q\<bar>" by simp
  then have "2 ^ 52 \<le> \<bar>rne q\<bar>" by (rule rne_abs_ge) simp
  then have "real_of_int (2 ^ 52) \<le> real_of_int \<bar>rne q\<bar>" by (simp only: of_int_le_iff)
  then have "two_p 52 \<le> \<bar>real_of_int (rne q)\<bar>"
    using two_p_nat[of 52] by simp
  then have "two_p 52 * two_p (k - 52) \<le> \<bar>real_of_int (rne q)\<bar> * two_p (k - 52)"
    using two_p_pos[of "k - 52"] by (simp only: mult_le_cancel_right_pos)
  moreover have "two_p 52 * two_p (k - 52) = two_p k"
    by (simp add: two_p_add[symmetric])
  moreover have "two_p 1024 \<le> two_p k" using k by (rule two_p_le)
  moreover have "\<bar>real_of_int (rne q) * two_p (k - 52)\<bar>
                   = \<bar>real_of_int (rne q)\<bar> * two_p (k - 52)"
    using two_p_pos[of "k - 52"] by (simp add: abs_mult)
  ultimately have "two_p 1024 \<le> \<bar>real_of_int (rne q) * two_p (k - 52)\<bar>" by linarith
  then show ?thesis using v0 by (simp add: rnd_def Let_def u q_def)
qed

subsection \<open>Doubles\<close>

lemma is_double_of_int:
  assumes "\<bar>n\<bar> < 2 ^ 53"
  shows "is_double (of_int n)"
proof -
  have "real_of_int \<bar>n\<bar> < real_of_int (2 ^ 53)" using assms by (simp only: of_int_less_iff)
  then have "\<bar>real_of_int n\<bar> < two_p 53" by (simp add: two_p_53)
  then have "\<bar>real_of_int n\<bar> < two_p 1024" using two_p_less[of 53 1024] by simp
  moreover have "real_of_int n = of_int n * two_p 0" by (simp add: two_p_0)
  ultimately show ?thesis unfolding is_double_def using assms by (metis neg_le_0_iff_le zero_le_numeral)
qed

lemma is_double_0: "is_double 0"
  using is_double_of_int[of 0] by simp

lemma is_double_1: "is_double 1"
  using is_double_of_int[of 1] by simp

lemma is_double_numeral: "numeral w < (2 ^ 53 :: int) \<Longrightarrow> is_double (numeral w)"
  using is_double_of_int[of "numeral w"] by simp

lemma is_double_minus: "is_double (- v) = is_double v"
proof -
  have "is_double (- v)" if "is_double v" for v
  proof -
    from that obtain m e where "v = of_int m * two_p e" "\<bar>m\<bar> < 2 ^ 53" "- 1074 \<le> e"
      and fin: "\<bar>v\<bar> < two_p 1024"
      unfolding is_double_def by blast
    then have "- v = of_int (- m) * two_p e \<and> \<bar>- m\<bar> < 2 ^ 53 \<and> - 1074 \<le> e" by simp
    then show ?thesis unfolding is_double_def using fin by (metis abs_minus_cancel)
  qed
  from this[of v] this[of "- v"] show ?thesis by auto
qed

lemma is_double_two_p:
  assumes "- 1074 \<le> e" and "e < 1024"
  shows "is_double (two_p e)"
proof -
  have "two_p e = of_int 1 * two_p e \<and> \<bar>1::int\<bar> < 2 ^ 53" by simp
  moreover have "\<bar>two_p e\<bar> < two_p 1024"
    using two_p_less[OF assms(2)] two_p_pos[of e] by simp
  ultimately show ?thesis unfolding is_double_def using assms(1) by blast
qed

lemma is_double_scaled:
  assumes "\<bar>n\<bar> < 2 ^ 53" and "- 1074 \<le> e" and "e \<le> 0"
  shows "is_double (of_int n * two_p e)"
proof -
  have "real_of_int \<bar>n\<bar> < real_of_int (2 ^ 53)" using assms(1) by (simp only: of_int_less_iff)
  then have "\<bar>real_of_int n\<bar> < two_p 53" by (simp add: two_p_53)
  moreover have "two_p e \<le> 1" using two_p_le[OF assms(3)] by (simp add: two_p_0)
  ultimately have "\<bar>real_of_int n\<bar> * two_p e < two_p 53 * 1"
    using two_p_pos[of e] by (intro mult_less_le_imp_less) simp_all
  then have "\<bar>real_of_int n * two_p e\<bar> < two_p 1024"
    using two_p_less[of 53 1024] two_p_pos[of e] by (simp add: abs_mult)
  then show ?thesis unfolding is_double_def using assms(1,2) by blast
qed

lemma two_p_neg_1: "two_p (- 1) = 1 / 2"
  by (simp add: two_p_def powr_minus inverse_eq_divide)

lemma two_p_neg_2: "two_p (- 2) = 1 / 4"
proof -
  have "two_p (- 2) = two_p (- 1) * two_p (- 1)" by (simp add: two_p_add[symmetric])
  then show ?thesis by (simp add: two_p_neg_1)
qed

lemma is_double_fractions: "is_double (1 / 2)" "is_double (1 / 4)" "is_double (3 / 4)"
  using is_double_scaled[of 1 "- 1"] is_double_scaled[of 1 "- 2"] is_double_scaled[of 3 "- 2"]
  by (simp_all add: two_p_neg_1 two_p_neg_2)

lemma fl_le_MAX_VALUE:
  assumes "v \<le> 2 ^ 53"
  shows "fl_le (Fin v) MAX_VALUE"
proof -
  have "two_p (- 52) \<le> 1" using two_p_le[of "- 52" 0] by (simp add: two_p_0)
  then have "1 * two_p 1023 \<le> (2 - two_p (- 52)) * two_p 1023"
    using two_p_pos[of 1023] by (intro mult_right_mono) simp_all
  then have a: "two_p 1023 \<le> (2 - two_p (- 52)) * two_p 1023" by (simp only: mult_1)
  have b: "two_p 53 \<le> two_p 1023" by (rule two_p_le) simp
  have c: "v \<le> two_p 53" using assms by (simp add: two_p_53)
  show ?thesis unfolding MAX_VALUE_def fl_le.simps using a b c by linarith
qed


lemmas fl_eval =
  rnd_exact is_double_0 is_double_1 is_double_numeral is_double_minus is_double_fractions
  fl_sub_def fl_eq_def fl_le_MAX_VALUE

section \<open>Projection onto a segment: results\<close>

lemma XY_eq_iff: "(p :: XY) = q \<longleftrightarrow> xc p = xc q \<and> yc p = yc q"
  by (cases p, cases q) simp

lemma pt_simps: "xc (pt u v) = Fin u" "yc (pt u v) = Fin v"
  by (simp_all add: pt_def)

lemma pt_eq_iff: "pt u v = pt u' v' \<longleftrightarrow> u = u' \<and> v = v'"
  by (simp add: pt_def)

lemma pt_rec: "\<lparr>xc = Fin u, yc = Fin v\<rparr> = pt u v"
  by (simp add: pt_def)

lemma val_Fin: "val (Fin v) = v"
  by (simp add: val_def)

lemma cps_degenerate:
  "closestPointOnSegment (pt u v) (pt u v) c = (pt u v, fl_dist c (pt u v))"
  by (simp add: closestPointOnSegment_def Let_def fl_dist_def pt_def fl_sub_def fl_eq_def rnd_def)

lemma fl_dist_exact:
  assumes "\<forall>w \<in> set (dist_steps (pt cu cv) (pt pu pv)). is_double w"
  shows "fl_dist (pt cu cv) (pt pu pv) = Fin (euclid (pt cu cv) (pt pu pv))"
proof -
  let ?dx = "cu - pu" and ?dy = "cv - pv"
  have d: "is_double ?dx" "is_double ?dy" "is_double (?dx * ?dx)" "is_double (?dy * ?dy)"
    "is_double (?dx * ?dx + ?dy * ?dy)" "is_double (sqrt (?dx * ?dx + ?dy * ?dy))"
    using assms by (simp_all add: dist_steps_def Let_def pt_simps val_Fin)
  have nn: "\<not> ?dx * ?dx + ?dy * ?dy < 0" by (simp add: not_less)
  show ?thesis
    using nn
    by (simp add: fl_dist_def pt_simps fl_sub_def rnd_exact d euclid_def val_Fin
        power2_eq_square)
qed











text \<open>
  Claim C10, as the code has it. On a degenerate segment whose end point has finite
  coordinates, \<open>closestPointOnSegment\<close> raises nothing: the parameter stays \<open>-1\<close> and it
  returns that end point, together with the distance from the query point as binary64
  computes it. That is the Euclidean distance when no operation rounds.
\<close>

theorem closestPointOnSegment_degenerate:
  "closestPointOnSegment (pt u v) (pt u v) c = (pt u v, fl_dist c (pt u v))
   \<and> ((\<forall>w \<in> set (dist_steps (pt cu cv) (pt u v)). is_double w) \<longrightarrow>
        closestPointOnSegment (pt u v) (pt u v) (pt cu cv)
          = (pt u v, Fin (euclid (pt cu cv) (pt u v))))"
  by (simp add: cps_degenerate fl_dist_exact)

lemma sqrt_25: "sqrt 25 = 5"
  using real_sqrt_abs[of 5] by simp

theorem closestPointOnSegment_degenerate_witness:
  "dist_steps (pt 3 4) (pt 0 0) = [3, 4, 9, 16, 25, 5]
   \<and> closestPointOnSegment (pt 0 0) (pt 0 0) (pt 3 4) = (pt 0 0, Fin 5)"
proof -
  have st: "dist_steps (pt 3 4) (pt 0 0) = [3, 4, 9, 16, 25, 5]"
    by (simp add: dist_steps_def Let_def pt_simps val_Fin sqrt_25)
  have ex: "\<forall>w \<in> set (dist_steps (pt 3 4) (pt 0 0)). is_double w"
    unfolding st by (simp add: is_double_numeral)
  have e: "euclid (pt 3 4) (pt 0 0) = 5"
    by (simp add: euclid_def pt_simps val_Fin sqrt_25)
  have "closestPointOnSegment (pt 0 0) (pt 0 0) (pt 3 4)
          = (pt 0 0, Fin (euclid (pt 3 4) (pt 0 0)))"
    using ex closestPointOnSegment_degenerate[of 0 0 "pt 3 4" 3 4] by blast
  then show ?thesis using st by (simp add: e)
qed

lemma huge_facts:
  "0 < huge" "is_double huge" "rnd (huge * huge) = PInf"
proof -
  show "0 < huge" by (simp add: huge_def two_p_pos)
  show "is_double huge" unfolding huge_def by (rule is_double_two_p) simp_all
  have "huge * huge = two_p 1200" by (simp add: huge_def two_p_add[symmetric])
  moreover have "two_p 1024 \<le> \<bar>two_p 1200\<bar>"
    using two_p_le[of 1024 1200] by simp
  moreover have "\<not> two_p 1200 < 0" using two_p_pos[of 1200] by simp
  ultimately show "rnd (huge * huge) = PInf" by (simp add: rnd_overflow)
qed

text \<open>
  Claim C10 as stated fails on the code: from the query point \<open>(2 ^ 600, 0)\<close> to the
  degenerate segment at the origin the Euclidean distance is \<open>2 ^ 600\<close>, a double, and
  the code returns infinity, since the square overflows.
\<close>

theorem closestPointOnSegment_overflow_counterexample:
  "closestPointOnSegment (pt 0 0) (pt 0 0) (pt huge 0) = (pt 0 0, PInf)
   \<and> euclid (pt huge 0) (pt 0 0) = huge
   \<and> is_double huge"
proof -
  have "fl_dist (pt huge 0) (pt 0 0) = PInf"
    by (simp add: fl_dist_def pt_simps fl_sub_def rnd_exact huge_facts is_double_0)
  moreover have "euclid (pt huge 0) (pt 0 0) = huge"
    using huge_facts(1) by (simp add: euclid_def pt_simps val_Fin)
  ultimately show ?thesis by (simp add: cps_degenerate huge_facts)
qed

section \<open>Projection onto a polygon: results\<close>

subsection \<open>The callback and the loop\<close>

lemma visit_cases:
  "visit pts p st j =
     (if degenerate pts j then st
      else if fl_le (snd (edge_visited pts p j)) (shortestDist st)
           then \<lparr>closestPointOnPoly = Some (fst (edge_visited pts p j)),
                 shortestDist = snd (edge_visited pts p j),
                 segmentIndex = prev_index (length pts) j\<rparr>
           else st)"
  by (simp add: visit_def degenerate_def edge_visited_def Let_def new_Point_def
      Point_subtract_def split: prod.splits)

lemma prev_index_lt: "j < n \<Longrightarrow> prev_index n j < n"
  by (auto simp: prev_index_def)

lemma next_prev_index: "j < n \<Longrightarrow> next_index n (prev_index n j) = j"
  by (auto simp: prev_index_def next_index_def)

lemma new_Point_Some: "new_Point (Some p) = p"
  by (simp add: new_Point_def)


lemma upt2: "[0 ..< 2] = [0, 1::nat]"
  by code_simp


lemma upt4: "[0 ..< 4] = [0, 1, 2, 3::nat]"
  by code_simp

lemma sqrt_squares:
  "sqrt 9 = 3" "sqrt 25 = 5" "sqrt 5625 = 75" "sqrt 22500 = 150" "sqrt 50625 = 225"
  "sqrt 90000 = 300"
  using real_sqrt_abs[of 3] real_sqrt_abs[of 5] real_sqrt_abs[of 75] real_sqrt_abs[of 150]
    real_sqrt_abs[of 225] real_sqrt_abs[of 300]
  by simp_all

lemmas eval_simps =
  forEach_visit_def visit_def closestPointOnSegment_def Let_def prev_index_def
  Point_eq_def Point_subtract_def Point_add_def new_Point_def origin_def array_get_def
  pt_def fl_eval sqrt_squares

subsection \<open>The returned index names the edge of the returned point\<close>

lemma visit_inv:
  assumes "j < length pts" and "proj_inv pts p st"
  shows "proj_inv pts p (visit pts p st j)"
  using assms
  by (simp add: visit_cases proj_inv_def prev_index_lt next_prev_index edge_visited_def)

lemma foldl_visit_inv:
  "\<forall>j \<in> set js. j < length pts \<Longrightarrow> proj_inv pts p st \<Longrightarrow>
   proj_inv pts p (foldl (visit pts p) st js)"
  by (induction js arbitrary: st) (simp_all add: visit_inv)

lemma forEach_visit_inv:
  assumes "pts \<noteq> []"
  shows "proj_inv pts p (forEach_visit pts p)"
  unfolding forEach_visit_def
proof (rule foldl_visit_inv)
  show "\<forall>j\<in>set [0..<length pts]. j < length pts" by simp
  show "proj_inv pts p
          \<lparr>closestPointOnPoly = array_get pts 0, shortestDist = MAX_VALUE, segmentIndex = 0\<rparr>"
    using assms by (simp add: proj_inv_def array_get_def)
qed

lemma cpp_index_lt:
  "points poly \<noteq> [] \<Longrightarrow> snd (closestPointOnPolygon poly q) < length (points poly)"
  using forEach_visit_inv[of "points poly"]
  by (simp add: closestPointOnPolygon_def Let_def proj_inv_def)



lemma square_150_0:
  "closestPointOnPolygon square (pt 150 0) = (pt 150 0, 0)"
  by (simp add: closestPointOnPolygon_def square_def upt4 eval_simps)


lemma tiny_pos: "0 < tiny"
  by (simp add: tiny_def two_p_pos)









subsection \<open>Ties: the edge visited last wins\<close>


lemma foldl_visit_keep:
  assumes "\<forall>j \<in> set js. degenerate pts j
             \<or> \<not> fl_le (snd (edge_visited pts p j)) (shortestDist st)"
  shows "foldl (visit pts p) st js = st"
  using assms by (induction js arbitrary: st) (auto simp: visit_cases)








subsection \<open>Polygons without a usable edge\<close>

lemma forEach_visit_all_degenerate:
  assumes "\<forall>j < length pts. degenerate pts j"
  shows "forEach_visit pts p =
           \<lparr>closestPointOnPoly = array_get pts 0, shortestDist = MAX_VALUE, segmentIndex = 0\<rparr>"
  unfolding forEach_visit_def
  by (rule foldl_visit_keep) (use assms in auto)

lemma forEach_visit_two:
  assumes "\<not> degenerate [a, b] 0" and "\<not> degenerate [a, b] 1"
  shows "forEach_visit [a, b] p =
           (if fl_le (snd (closestPointOnSegment a b p)) MAX_VALUE
            then if fl_le (snd (closestPointOnSegment b a p)) (snd (closestPointOnSegment a b p))
                 then \<lparr>closestPointOnPoly = Some (fst (closestPointOnSegment b a p)),
                       shortestDist = snd (closestPointOnSegment b a p), segmentIndex = 0\<rparr>
                 else \<lparr>closestPointOnPoly = Some (fst (closestPointOnSegment a b p)),
                       shortestDist = snd (closestPointOnSegment a b p), segmentIndex = 1\<rparr>
            else if fl_le (snd (closestPointOnSegment b a p)) MAX_VALUE
                 then \<lparr>closestPointOnPoly = Some (fst (closestPointOnSegment b a p)),
                       shortestDist = snd (closestPointOnSegment b a p), segmentIndex = 0\<rparr>
                 else \<lparr>closestPointOnPoly = Some a, shortestDist = MAX_VALUE,
                       segmentIndex = 0\<rparr>)"
  using assms
  by (simp add: forEach_visit_def upt2 visit_cases edge_visited_def prev_index_def
      array_get_def)

text \<open>
  Claim C8, as the code has it. \<open>closestPointOnPolygon\<close> tests nothing about the polygon
  and never fails. When the callback skips every edge as degenerate, which includes every
  polygon of no or one vertex, it returns the first vertex (the origin when there is none)
  moved by the polygon's offset, with index \<open>0\<close>. For a polygon of two points whose edge
  is not skipped it returns a projection onto the segment between them: the one computed
  from the second point, with index \<open>0\<close>, when its computed distance is at most the one
  computed from the first point or that one exceeds \<open>Number.MAX_VALUE\<close>; otherwise the
  one computed from the first point, with index \<open>1\<close>; and the first point with index \<open>0\<close>
  when neither distance is at most \<open>Number.MAX_VALUE\<close>.
\<close>

theorem closestPointOnPolygon_no_InvalidPolygon:
  "((\<forall>j < length (points poly). degenerate (points poly) j) \<longrightarrow>
      closestPointOnPolygon poly q =
        (Point_add (new_Point (array_get (points poly) 0)) (offset poly), 0))
   \<and> (points poly = [a, b] \<and> \<not> degenerate [a, b] 0 \<and> \<not> degenerate [a, b] 1 \<longrightarrow>
      closestPointOnPolygon poly q =
        (if fl_le (snd (closestPointOnSegment a b (local_point poly q))) MAX_VALUE
         then if fl_le (snd (closestPointOnSegment b a (local_point poly q)))
                       (snd (closestPointOnSegment a b (local_point poly q)))
              then (Point_add (fst (closestPointOnSegment b a (local_point poly q)))
                      (offset poly), 0)
              else (Point_add (fst (closestPointOnSegment a b (local_point poly q)))
                      (offset poly), 1)
         else if fl_le (snd (closestPointOnSegment b a (local_point poly q))) MAX_VALUE
              then (Point_add (fst (closestPointOnSegment b a (local_point poly q)))
                      (offset poly), 0)
              else (Point_add a (offset poly), 0)))"
proof (intro conjI impI)
  assume "\<forall>j < length (points poly). degenerate (points poly) j"
  then show "closestPointOnPolygon poly q =
        (Point_add (new_Point (array_get (points poly) 0)) (offset poly), 0)"
    by (simp add: closestPointOnPolygon_def Let_def forEach_visit_all_degenerate offset_def)
next
  assume h: "points poly = [a, b] \<and> \<not> degenerate [a, b] 0 \<and> \<not> degenerate [a, b] 1"
  then have nd: "\<not> degenerate [a, b] 0" "\<not> degenerate [a, b] 1" and p: "points poly = [a, b]"
    by simp_all
  show "closestPointOnPolygon poly q =
        (if fl_le (snd (closestPointOnSegment a b (local_point poly q))) MAX_VALUE
         then if fl_le (snd (closestPointOnSegment b a (local_point poly q)))
                       (snd (closestPointOnSegment a b (local_point poly q)))
              then (Point_add (fst (closestPointOnSegment b a (local_point poly q)))
                      (offset poly), 0)
              else (Point_add (fst (closestPointOnSegment a b (local_point poly q)))
                      (offset poly), 1)
         else if fl_le (snd (closestPointOnSegment b a (local_point poly q))) MAX_VALUE
              then (Point_add (fst (closestPointOnSegment b a (local_point poly q)))
                      (offset poly), 0)
              else (Point_add a (offset poly), 0))"
    unfolding closestPointOnPolygon_def Let_def p forEach_visit_two[OF nd]
    by (simp add: new_Point_Some local_point_def offset_def)
qed

theorem closestPointOnPolygon_no_InvalidPolygon_witness:
  "closestPointOnPolygon \<lparr>points = [pt 7 7], left = Fin 1, top' = Fin 2\<rparr> (pt 1 1)
     = (pt 8 9, 0)
   \<and> closestPointOnPolygon \<lparr>points = [pt 0 0, pt 0 10], left = Fin 0, top' = Fin 0\<rparr> (pt 3 5)
     = (pt 0 5, 0)"
proof -
  let ?one = "\<lparr>points = [pt 7 7], left = Fin 1, top' = Fin 2\<rparr>"
  let ?two = "\<lparr>points = [pt 0 0, pt 0 10], left = Fin 0, top' = Fin 0\<rparr>"
  have d: "\<forall>j < length (points ?one). degenerate (points ?one) j"
    by (simp add: degenerate_def eval_simps)
  have lp: "local_point ?two (pt 3 5) = pt 3 5"
    by (simp add: local_point_def eval_simps)
  have c: "closestPointOnSegment (pt 0 0) (pt 0 10) (pt 3 5) = (pt 0 5, Fin 3)"
    "closestPointOnSegment (pt 0 10) (pt 0 0) (pt 3 5) = (pt 0 5, Fin 3)"
    by (simp_all add: eval_simps)
  have t: "points ?two = [pt 0 0, pt 0 10]
             \<and> \<not> degenerate [pt 0 0, pt 0 10] 0 \<and> \<not> degenerate [pt 0 0, pt 0 10] 1"
    by (simp add: degenerate_def eval_simps)
  have "closestPointOnPolygon ?one (pt 1 1) = (pt 8 9, 0)"
    using d closestPointOnPolygon_no_InvalidPolygon[of ?one "pt 1 1"]
    by (simp add: offset_def eval_simps)
  moreover have "closestPointOnPolygon ?two (pt 3 5) = (pt 0 5, 0)"
    using t closestPointOnPolygon_no_InvalidPolygon[of ?two "pt 3 5" "pt 0 0" "pt 0 10"]
    unfolding lp c by (simp add: offset_def fl_le_MAX_VALUE) (simp add: eval_simps)
  ultimately show ?thesis by simp
qed

text \<open>
  Claim C8 as stated fails: projecting \<open>(5, 5)\<close> onto the polygon of the two points
  \<open>(0, 0)\<close> and \<open>(10, 0)\<close> returns the point \<open>(5, 0)\<close> and the index \<open>0\<close>.
\<close>

theorem closestPointOnPolygon_two_points_counterexample:
  "closestPointOnPolygon \<lparr>points = [pt 0 0, pt 10 0], left = Fin 0, top' = Fin 0\<rparr> (pt 5 5)
   = (pt 5 0, 0)"
  by (simp add: closestPointOnPolygon_def upt2 eval_simps)

subsection \<open>The edges that the callback skips\<close>

lemma rnd_not_zero:
  assumes "tiny \<le> \<bar>w\<bar>"
  shows "rnd w \<noteq> Fin 0"
proof -
  have w: "w \<noteq> 0" using assms tiny_pos by auto
  define e where "e = ulp_exp w"
  have "two_p e \<le> \<bar>w\<bar>"
  proof (cases "\<lfloor>log 2 \<bar>w\<bar>\<rfloor> - 52 \<le> - 1074")
    case True
    then have "e = - 1074" unfolding e_def ulp_exp_def by linarith
    then show ?thesis using assms by (simp add: tiny_def)
  next
    case False
    then have "e = \<lfloor>log 2 \<bar>w\<bar>\<rfloor> - 52" unfolding e_def ulp_exp_def by linarith
    then have "two_p e \<le> two_p \<lfloor>log 2 \<bar>w\<bar>\<rfloor>" by (simp add: two_p_le)
    then show ?thesis using two_p_floor_log[OF w] by linarith
  qed
  then have "of_int 1 \<le> \<bar>w / two_p e\<bar>"
    using two_p_pos[of e] by (simp add: abs_divide le_divide_eq)
  then have "1 \<le> \<bar>rne (w / two_p e)\<bar>" by (rule rne_abs_ge) simp
  then have "of_int (rne (w / two_p e)) * two_p e \<noteq> 0"
    using two_p_pos[of e] by auto
  then show ?thesis
    using w by (simp add: rnd_def Let_def e_def[symmetric])
qed

lemma is_double_grid:
  assumes "is_double u"
  shows "\<exists>n :: int. u = of_int n * tiny"
proof -
  from assms obtain m e where u: "u = of_int m * two_p e" and e: "- 1074 \<le> e"
    unfolding is_double_def by blast
  define k where "k = nat (e + 1074)"
  have "e = int k + (- 1074)" using e by (simp add: k_def)
  then have "two_p e = two_p (int k) * tiny"
    by (simp only: two_p_add tiny_def)
  then have "u = of_int (m * 2 ^ k) * tiny"
    unfolding u two_p_nat by simp
  then show ?thesis by blast
qed

lemma rnd_diff_zero_iff:
  assumes "is_double u" and "is_double v"
  shows "rnd (u - v) = Fin 0 \<longleftrightarrow> u = v"
proof
  assume z: "rnd (u - v) = Fin 0"
  from is_double_grid[OF assms(1)] obtain m :: int where m: "u = of_int m * tiny" by blast
  from is_double_grid[OF assms(2)] obtain n :: int where n: "v = of_int n * tiny" by blast
  show "u = v"
  proof (rule ccontr)
    assume "u \<noteq> v"
    then have "m \<noteq> n" using m n by auto
    then have "1 \<le> \<bar>m - n\<bar>" by linarith
    then have "(1::real) \<le> \<bar>of_int (m - n)\<bar>" by (simp only: of_int_abs[symmetric] of_int_1_le_iff)
    then have "tiny \<le> \<bar>of_int (m - n)\<bar> * tiny"
      using tiny_pos by (simp add: mult_le_cancel_right1)
    also have "\<dots> = \<bar>of_int (m - n) * tiny\<bar>"
      using tiny_pos by (simp only: abs_mult abs_of_pos)
    also have "of_int (m - n) * tiny = u - v"
      by (simp add: m n left_diff_distrib)
    finally show False using rnd_not_zero[of "u - v"] z by simp
  qed
next
  assume "u = v"
  then show "rnd (u - v) = Fin 0" by (simp add: rnd_def)
qed

text \<open>
  Between vertices with finite coordinates the callback skips exactly the edges of
  length zero: the difference of two doubles is zero only when they are equal.
\<close>

lemma degenerate_iff:
  assumes "pts ! j = pt a b" and "pts ! prev_index (length pts) j = pt c d"
    and "is_double a" and "is_double b" and "is_double c" and "is_double d"
  shows "degenerate pts j \<longleftrightarrow> pt c d = pt a b"
proof -
  have "fl_eq x (Fin 0) \<longleftrightarrow> x = Fin 0" for x
    by (auto simp: fl_eq_def)
  then show ?thesis
    using rnd_diff_zero_iff[OF assms(5,3)] rnd_diff_zero_iff[OF assms(6,4)]
    by (simp add: degenerate_def assms(1,2) Point_eq_def Point_subtract_def origin_def
        pt_simps fl_sub_def pt_eq_iff)
qed

section \<open>Splitting: the augmented vertex list\<close>

lemma gather_step_inserted:
  assumes "fst S \<noteq> fst (P ! i)" and "fst E \<noteq> fst (P ! i)"
  shows "gather_step P S si E ei vs i = vs @ P ! i # inserted P S si E ei i"
  using assms by (simp add: gather_step_def inserted_def manhattan_def Let_def)

lemma foldl_gather:
  assumes "\<forall>i \<in> set js. fst S \<noteq> fst (P ! i) \<and> fst E \<noteq> fst (P ! i)"
  shows "foldl (gather_step P S si E ei) vs js
           = vs @ concat (map (\<lambda>i. P ! i # inserted P S si E ei i) js)"
  using assms by (induction js arbitrary: vs) (simp_all add: gather_step_inserted)

lemma translated_length: "length (translated poly) = length (points poly)"
  by (simp add: translated_def)

lemma translated_nth:
  "i < length (points poly) \<Longrightarrow> translated poly ! i = (PolyPointRef i, scene_vertex poly i)"
  by (simp add: translated_def scene_vertex_def nth_enumerate_eq)

lemma snapped_eq:
  "snapped poly cutPath =
     (((StartPointRef, fst (closestPointOnPolygon poly (cutPath ! 0))),
       snd (closestPointOnPolygon poly (cutPath ! 0))),
      ((EndPointRef, fst (closestPointOnPolygon poly (cutPath ! (length cutPath - 1)))),
       snd (closestPointOnPolygon poly (cutPath ! (length cutPath - 1)))))"
  by (simp add: snapped_def Let_def new_Point_Some split: prod.splits)

lemma gather_translated:
  assumes "fst S = StartPointRef" and "fst E = EndPointRef"
  shows "gather (translated poly) S si E ei =
           concat (map (\<lambda>i. translated poly ! i # inserted (translated poly) S si E ei i)
                    [0 ..< length (points poly)])"
  unfolding gather_def translated_length
  using foldl_gather[of "[0 ..< length (points poly)]" S "translated poly" E si ei "[]"] assms
  by (simp add: translated_nth)



lemma map_nth_drop: "map (nth xs) [i ..< length xs] = drop i xs"
  by (metis drop_map drop_upt map_nth add.commute add_0)

lemma map_nth_range:
  assumes "j \<le> length xs"
  shows "map (nth xs) [i ..< j] = take (j - i) (drop i xs)"
proof (cases "i \<le> j")
  case True
  have "take (j - i) (drop i xs) = take (j - i) (map (nth xs) [i ..< length xs])"
    by (simp add: map_nth_drop)
  also have "\<dots> = map (nth xs) (take (j - i) [i ..< length xs])"
    by (simp add: take_map)
  also have "take (j - i) [i ..< length xs] = [i ..< j]"
    using True assms by (simp add: take_upt)
  finally show ?thesis by simp
next
  case False
  then show ?thesis by simp
qed



subsection \<open>Evaluation on the square\<close>

lemma square_150_300:
  "closestPointOnPolygon square (pt 150 300) = (pt 150 300, 2)"
  by (simp add: closestPointOnPolygon_def square_def upt4 eval_simps)

lemma square_0_0:
  "closestPointOnPolygon square (pt 0 0) = (pt 0 0, 0)"
  by (simp add: closestPointOnPolygon_def square_def upt4 eval_simps)

lemma square_300_300:
  "closestPointOnPolygon square (pt 300 300) = (pt 300 300, 2)"
  by (simp add: closestPointOnPolygon_def square_def upt4 eval_simps)

lemma square_75_0:
  "closestPointOnPolygon square (pt 75 0) = (pt 75 0, 0)"
  by (simp add: closestPointOnPolygon_def square_def upt4 eval_simps)

lemma square_225_0:
  "closestPointOnPolygon square (pt 225 0) = (pt 225 0, 0)"
  by (simp add: closestPointOnPolygon_def square_def upt4 eval_simps)

lemma translated_square:
  "translated square =
     [(PolyPointRef 0, pt 0 0), (PolyPointRef 1, pt 300 0),
      (PolyPointRef 2, pt 300 300), (PolyPointRef 3, pt 0 300)]"
  by (simp add: translated_def square_def eval_nat_numeral pt_simps fl_eval pt_rec)

lemmas cut_eval = cut_vertices_def snapped_eq gather_def gather_step_def Let_def translated_square upt4

lemma vertices_vertical:
  "cut_vertices square [pt 150 0, pt 150 300] =
     [(PolyPointRef 0, pt 0 0), (StartPointRef, pt 150 0),
      (PolyPointRef 1, pt 300 0), (PolyPointRef 2, pt 300 300),
      (EndPointRef, pt 150 300), (PolyPointRef 3, pt 0 300)]"
  by (simp add: cut_eval square_150_0 square_150_300)

lemma cut_vertical:
  "cutPolygon square [pt 150 0, pt 150 300] =
     Inr ([pt 150 0, pt 300 0, pt 300 300, pt 150 300],
          [pt 150 300, pt 0 300, pt 0 0, pt 150 0])"
  by (simp add: cutPolygon_def vertices_vertical Let_def snapped_eq square_150_0 square_150_300
      indexOf_def slice_def)

lemma vertices_diagonal:
  "map snd (cut_vertices square [pt 0 0, pt 300 300]) =
     [pt 0 0, pt 0 0, pt 300 0,
      pt 300 300, pt 300 300, pt 0 300]"
  by (simp add: cut_eval square_0_0 square_300_300)

lemma cut_diagonal:
  "cutPolygon square [pt 0 0, pt 300 300] =
     Inr ([pt 0 0, pt 300 0, pt 300 300, pt 300 300],
          [pt 300 300, pt 0 300, pt 0 0, pt 0 0])"
  by (simp add: cutPolygon_def cut_eval square_0_0 square_300_300
      indexOf_def slice_def)

lemma vertices_same_edge:
  "map snd (cut_vertices square [pt 75 0, pt 225 0]) =
     [pt 0 0, pt 75 0, pt 225 0, pt 300 0,
      pt 300 300, pt 0 300]"
  by (simp add: cut_eval square_75_0 square_225_0 pt_simps fl_eval)

lemma square_facts:
  "length (points square) = 4" "left square = Fin 0" "top' square = Fin 0"
  "scene_vertex square 0 = pt 0 0"
  "scene_vertices square =
     [pt 0 0, pt 300 0, pt 300 300, pt 0 300]"
  by (simp_all add: square_def scene_vertex_def scene_vertices_def upt4 pt_simps fl_eval pt_rec)

lemma vertices_vertical3:
  "cut_vertices square [pt 150 0, pt 150 150, pt 150 300] =
     [(PolyPointRef 0, pt 0 0), (StartPointRef, pt 150 0),
      (PolyPointRef 1, pt 300 0), (PolyPointRef 2, pt 300 300),
      (EndPointRef, pt 150 300), (PolyPointRef 3, pt 0 300)]"
  by (simp add: cut_eval square_150_0 square_150_300)

lemma vertices_vertical3_rev:
  "cut_vertices square [pt 150 300, pt 150 150, pt 150 0] =
     [(PolyPointRef 0, pt 0 0), (EndPointRef, pt 150 0),
      (PolyPointRef 1, pt 300 0), (PolyPointRef 2, pt 300 300),
      (StartPointRef, pt 150 300), (PolyPointRef 3, pt 0 300)]"
  by (simp add: cut_eval square_150_0 square_150_300)

lemma small_upts:
  "[0 ..< 1] = [0::nat]" "[1 ..< 4] = [1, 2, 3::nat]" "[4 ..< 5] = [4::nat]" "[1 ..< 5] = [1, 2, 3, 4::nat]"
  "[4 ..< 6] = [4, 5::nat]" "[Suc 0 ..< 5] = [1, 2, 3, 4::nat]"
  by code_simp+

subsection \<open>Both snapped points on one edge\<close>



section \<open>Splitting: the two output loops\<close>

lemma indexOf_from_found:
  assumes "\<exists>u \<in> set xs. fst u = fst v"
  shows "\<exists>j < length xs. indexOf_from xs v k = k + int j \<and> fst (xs ! j) = fst v"
  using assms
proof (induction xs arbitrary: k)
  case Nil
  then show ?case by simp
next
  case (Cons u us)
  show ?case
  proof (cases "fst u = fst v")
    case True
    then show ?thesis by (intro exI[of _ 0]) simp
  next
    case False
    with Cons.prems have "\<exists>u \<in> set us. fst u = fst v" by simp
    from Cons.IH[OF this, of "k + 1"] obtain j where
      j: "j < length us" "indexOf_from us v (k + 1) = k + 1 + int j" "fst (us ! j) = fst v"
      by blast
    with False show ?thesis by (intro exI[of _ "Suc j"]) simp
  qed
qed

lemma indexOf_found:
  assumes "\<exists>u \<in> set xs. fst u = fst v"
  shows "0 \<le> indexOf xs v \<and> nat (indexOf xs v) < length xs
         \<and> fst (xs ! nat (indexOf xs v)) = fst v"
proof -
  from indexOf_from_found[OF assms, of 0] obtain j where
    "j < length xs" "indexOf xs v = int j" "fst (xs ! j) = fst v"
    by (auto simp: indexOf_def)
  then show ?thesis by simp
qed

lemma slice_closed_range:
  assumes "j < length xs"
  shows "slice xs (int i) (int j + 1) = closed_range xs i j"
proof (cases "i \<le> j")
  case True
  have "slice xs (int i) (int j + 1) = take (nat (int j + 1 - int i)) (drop i xs)"
    using assms True by (simp add: slice_def Let_def min_def)
  also have "nat (int j + 1 - int i) = Suc j - i" by simp
  also have "take (Suc j - i) (drop i xs) = map (nth xs) [i ..< Suc j]"
    using assms by (simp only: map_nth_range[of "Suc j" xs i] Suc_leI)
  finally show ?thesis by (simp add: closed_range_def)
next
  case False
  then have "nat (int j + 1 - min (int i) (int (length xs))) = 0"
    using assms by (simp add: min_def)
  then have "slice xs (int i) (int j + 1) = []"
    using assms by (simp add: slice_def Let_def)
  then show ?thesis using False by (simp add: closed_range_def)
qed

lemma slice_to_end:
  assumes "i < length xs"
  shows "slice xs (int i) (int (length xs)) = closed_range xs i (length xs - 1)"
proof -
  have "int (length xs) = int (length xs - 1) + 1" using assms by simp
  then show ?thesis
    using assms slice_closed_range[of "length xs - 1" xs i] by simp
qed

lemma slice_interior:
  assumes "2 \<le> length c"
  shows "slice c 1 (- 1) = interior c"
proof -
  have "slice c 1 (- 1) = take (nat (int (length c) - 2)) (drop 1 c)"
    using assms by (simp add: slice_def Let_def)
  also have "nat (int (length c) - 2) = length (tl c) - 1" by simp
  also have "drop 1 c = tl c" by (simp add: drop_Suc)
  finally show ?thesis by (simp add: interior_def butlast_conv_take)
qed

lemma inserted_subset: "set (inserted P S si E ei i) \<subseteq> {S, E}"
  by (auto simp: inserted_def)

lemma inserted_start: "S \<in> set (inserted P S si E ei si)"
  by (simp add: inserted_def)

lemma inserted_end: "E \<in> set (inserted P S si E ei ei)"
  by (simp add: inserted_def)

lemma gather_members:
  assumes S: "fst S = StartPointRef" and E: "fst E = EndPointRef"
    and si: "si < length (points poly)" and ei: "ei < length (points poly)"
  shows "S \<in> set (gather (translated poly) S si E ei)"
    and "E \<in> set (gather (translated poly) S si E ei)"
    and "\<And>u. u \<in> set (gather (translated poly) S si E ei) \<Longrightarrow> fst u = StartPointRef \<Longrightarrow> u = S"
    and "\<And>u. u \<in> set (gather (translated poly) S si E ei) \<Longrightarrow> fst u = EndPointRef \<Longrightarrow> u = E"
proof -
  let ?vs = "gather (translated poly) S si E ei"
  have vs: "set ?vs = (\<Union>i \<in> {..< length (points poly)}.
               insert (translated poly ! i) (set (inserted (translated poly) S si E ei i)))"
    unfolding gather_translated[OF S E] by (auto simp: atLeast0LessThan)
  show "S \<in> set ?vs" unfolding vs using si inserted_start by blast
  show "E \<in> set ?vs" unfolding vs using ei inserted_end by blast
  have cases: "u = S \<or> u = E \<or> (\<exists>i. fst u = PolyPointRef i)" if "u \<in> set ?vs" for u
    using that inserted_subset[of "translated poly" S si E ei] unfolding vs
    by (auto simp: translated_nth)
  show "u = S" if "u \<in> set ?vs" "fst u = StartPointRef" for u
    using cases[OF that(1)] that(2) E by auto
  show "u = E" if "u \<in> set ?vs" "fst u = EndPointRef" for u
    using cases[OF that(1)] that(2) S by auto
qed

lemma cut_vertices_positions:
  fixes poly :: Polygon and cutPath :: "XY list"
  assumes ne: "points poly \<noteq> []"
  defines "S \<equiv> fst (fst (snapped poly cutPath))" and "E \<equiv> fst (snd (snapped poly cutPath))"
  defines "vs \<equiv> cut_vertices poly cutPath"
  shows "0 \<le> indexOf vs S" and "nat (indexOf vs S) < length vs" and "vs ! nat (indexOf vs S) = S"
    and "0 \<le> indexOf vs E" and "nat (indexOf vs E) < length vs" and "vs ! nat (indexOf vs E) = E"
    and "indexOf vs S \<noteq> indexOf vs E"
proof -
  let ?si = "snd (fst (snapped poly cutPath))" and ?ei = "snd (snd (snapped poly cutPath))"
  have S: "fst S = StartPointRef" and E: "fst E = EndPointRef"
    by (simp_all add: S_def E_def snapped_eq)
  have si: "?si < length (points poly)" and ei: "?ei < length (points poly)"
    using cpp_index_lt[OF ne] by (simp_all add: snapped_eq)
  have vs: "vs = gather (translated poly) S ?si E ?ei"
    by (simp add: vs_def cut_vertices_def S_def E_def split: prod.splits)
  note m = gather_members[OF S E si ei, folded vs]
  have fS: "0 \<le> indexOf vs S \<and> nat (indexOf vs S) < length vs
         \<and> fst (vs ! nat (indexOf vs S)) = fst S"
    using m(1) by (intro indexOf_found) blast
  have fE: "0 \<le> indexOf vs E \<and> nat (indexOf vs E) < length vs
         \<and> fst (vs ! nat (indexOf vs E)) = fst E"
    using m(2) by (intro indexOf_found) blast
  show "0 \<le> indexOf vs S" "nat (indexOf vs S) < length vs" using fS by simp_all
  show "0 \<le> indexOf vs E" "nat (indexOf vs E) < length vs" using fE by simp_all
  show "vs ! nat (indexOf vs S) = S"
    using fS m(3)[of "vs ! nat (indexOf vs S)"] S by simp
  show "vs ! nat (indexOf vs E) = E"
    using fE m(4)[of "vs ! nat (indexOf vs E)"] E by simp
  show "indexOf vs S \<noteq> indexOf vs E"
    using fS fE S E by auto
qed

text \<open>
  Claim C2. For a polygon of at least three vertices and a cut of at least two points,
  both snapped points are found in the augmented vertex list, at two different positions
  \<open>s\<close> and \<open>e\<close>. With \<open>I\<close> the interior points of the cut: if \<open>s\<close> precedes \<open>e\<close>, the
  first loop is \<open>vertices[s..e]\<close> followed by \<open>I\<close> reversed and the second is
  \<open>vertices[e..]\<close>, \<open>vertices[..s]\<close> and \<open>I\<close>; otherwise the first loop is
  \<open>vertices[s..]\<close>, \<open>vertices[..e]\<close> and \<open>I\<close> reversed, and the second is
  \<open>vertices[e..s]\<close> followed by \<open>I\<close>.
\<close>

theorem cutPolygon_arcs:
  assumes "3 \<le> length (points poly)" and "2 \<le> length cutPath"
  shows "let vs = cut_vertices poly cutPath;
             S = fst (fst (snapped poly cutPath));
             E = fst (snd (snapped poly cutPath));
             s = nat (indexOf vs S);
             e = nat (indexOf vs E);
             I = interior cutPath
         in 0 \<le> indexOf vs S \<and> s < length vs \<and> vs ! s = S
            \<and> 0 \<le> indexOf vs E \<and> e < length vs \<and> vs ! e = E
            \<and> s \<noteq> e
            \<and> cutPolygon poly cutPath =
                Inr (if s < e
                     then (map snd (closed_range vs s e) @ rev I,
                           map snd (closed_range vs e (length vs - 1))
                             @ map snd (closed_range vs 0 s) @ I)
                     else (map snd (closed_range vs s (length vs - 1))
                             @ map snd (closed_range vs 0 e) @ rev I,
                           map snd (closed_range vs e s) @ I))"
proof -
  define vs where "vs = cut_vertices poly cutPath"
  define S where "S = fst (fst (snapped poly cutPath))"
  define E where "E = fst (snd (snapped poly cutPath))"
  define s where "s = nat (indexOf vs S)"
  define e where "e = nat (indexOf vs E)"
  have ne: "points poly \<noteq> []" using assms(1) by auto
  note pos = cut_vertices_positions[OF ne, of cutPath, folded vs_def S_def E_def]
  have s: "indexOf vs S = int s" and e: "indexOf vs E = int e"
    using pos(1,4) by (simp_all add: s_def e_def)
  have sl: "s < length vs" and el: "e < length vs"
    using pos(2,5) by (simp_all add: s_def e_def)
  have se: "s \<noteq> e" using pos(7) s e by simp
  have zero: "slice vs 0 (int k + 1) = closed_range vs 0 k" if "k < length vs" for k
    using slice_closed_range[OF that, of 0] by simp
  have "cutPolygon poly cutPath =
          Inr (if s < e
               then (map snd (slice vs (int s) (int e + 1)) @ rev (slice cutPath 1 (- 1)),
                     map snd (slice vs (int e) (int (length vs)) @ slice vs 0 (int s + 1))
                       @ slice cutPath 1 (- 1))
               else (map snd (slice vs (int s) (int (length vs)) @ slice vs 0 (int e + 1))
                       @ rev (slice cutPath 1 (- 1)),
                     map snd (slice vs (int e) (int s + 1)) @ slice cutPath 1 (- 1)))"
    using assms(2) s e
    by (simp add: cutPolygon_def snapped_eq Let_def vs_def[symmetric] S_def E_def)
  then have "cutPolygon poly cutPath =
          Inr (if s < e
               then (map snd (closed_range vs s e) @ rev (interior cutPath),
                     map snd (closed_range vs e (length vs - 1))
                       @ map snd (closed_range vs 0 s) @ interior cutPath)
               else (map snd (closed_range vs s (length vs - 1))
                       @ map snd (closed_range vs 0 e) @ rev (interior cutPath),
                     map snd (closed_range vs e s) @ interior cutPath))"
    using sl el
    by (simp add: slice_closed_range slice_to_end zero slice_interior[OF assms(2)])
  moreover have "vs ! s = S" "vs ! e = E"
    using pos(3,6) by (simp_all add: s_def e_def)
  ultimately show ?thesis
    unfolding Let_def
    unfolding vs_def[symmetric] S_def[symmetric] E_def[symmetric]
    unfolding s_def[symmetric] e_def[symmetric]
    using pos(1,4) sl el se by blast
qed

text \<open>
  A cut down the middle of the square with one interior point, where the start precedes
  the end, and the same cut drawn upwards, where the end precedes the start.
\<close>

theorem cutPolygon_arcs_witness:
  "3 \<le> length (points square)
   \<and> 2 \<le> length [pt 150 0, pt 150 150, pt 150 300]
   \<and> cutPolygon square [pt 150 0, pt 150 150, pt 150 300] =
       Inr ([pt 150 0, pt 300 0, pt 300 300,
             pt 150 300, pt 150 150],
            [pt 150 300, pt 0 300, pt 0 0,
             pt 150 0, pt 150 150])
   \<and> cutPolygon square [pt 150 300, pt 150 150, pt 150 0] =
       Inr ([pt 150 300, pt 0 300, pt 0 0,
             pt 150 0, pt 150 150],
            [pt 150 0, pt 300 0, pt 300 300,
             pt 150 300, pt 150 150])"
proof -
  let ?down = "[pt 150 0, pt 150 150, pt 150 300]"
  let ?up = "[pt 150 300, pt 150 150, pt 150 0]"
  have n: "3 \<le> length (points square)" by (simp add: square_facts)
  have c: "2 \<le> length ?down" "2 \<le> length ?up" by simp_all
  have "cutPolygon square ?down =
       Inr ([pt 150 0, pt 300 0, pt 300 300,
             pt 150 300, pt 150 150],
            [pt 150 300, pt 0 300, pt 0 0,
             pt 150 0, pt 150 150])"
    using cutPolygon_arcs[OF n c(1)]
    by (simp add: Let_def vertices_vertical3 snapped_eq square_150_0 square_150_300
        indexOf_def closed_range_def interior_def small_upts)
  moreover have "cutPolygon square ?up =
       Inr ([pt 150 300, pt 0 300, pt 0 0,
             pt 150 0, pt 150 150],
            [pt 150 0, pt 300 0, pt 300 300,
             pt 150 300, pt 150 150])"
    using cutPolygon_arcs[OF n c(2)]
    by (simp add: Let_def vertices_vertical3_rev snapped_eq square_150_0 square_150_300
        indexOf_def closed_range_def interior_def small_upts)
  ultimately show ?thesis using n by simp
qed

section \<open>Splitting: the scenarios of the specification\<close>

lemma rect_region_pt:
  "pt u v \<in> rect_region x0 y0 x1 y1 \<longleftrightarrow> x0 \<le> u \<and> u \<le> x1 \<and> y0 \<le> v \<and> v \<le> y1"
  by (auto simp: rect_region_def pt_eq_iff)

lemma rect_region_is_pt: "p \<in> rect_region x0 y0 x1 y1 \<Longrightarrow> \<exists>u v. p = pt u v"
  by (auto simp: rect_region_def)

lemma rect_region_halves:
  "rect_region 150 0 300 300 \<union> rect_region 0 0 150 300 = rect_region 0 0 300 300"
  "rect_region 150 0 300 300 \<inter> rect_region 0 0 150 300 = rect_region 150 0 150 300"
proof -
  have "p \<in> rect_region 150 0 300 300 \<union> rect_region 0 0 150 300
          \<longleftrightarrow> p \<in> rect_region 0 0 300 300" for p
  proof (cases "\<exists>u v. p = pt u v")
    case True
    then obtain u v where p: "p = pt u v" by blast
    show ?thesis unfolding p Un_iff rect_region_pt by auto
  next
    case False
    then show ?thesis using rect_region_is_pt[of p] by blast
  qed
  then show "rect_region 150 0 300 300 \<union> rect_region 0 0 150 300 = rect_region 0 0 300 300"
    by (rule set_eqI)
  have "p \<in> rect_region 150 0 300 300 \<inter> rect_region 0 0 150 300
          \<longleftrightarrow> p \<in> rect_region 150 0 150 300" for p
  proof (cases "\<exists>u v. p = pt u v")
    case True
    then obtain u v where p: "p = pt u v" by blast
    show ?thesis unfolding p Int_iff rect_region_pt by auto
  next
    case False
    then show ?thesis using rect_region_is_pt[of p] by blast
  qed
  then show "rect_region 150 0 300 300 \<inter> rect_region 0 0 150 300 = rect_region 150 0 150 300"
    by (rule set_eqI)
qed

lemma sum_upto_4: "(\<Sum>i < (4::nat). f i) = f 0 + f 1 + f 2 + (f 3 :: real)"
  by (simp add: eval_nat_numeral lessThan_Suc)

lemma loop_area_4:
  "loop_area [pt x0 y0, pt x1 y1, pt x2 y2, pt x3 y3] =
     \<bar>(x0 * y1 - x1 * y0) + (x1 * y2 - x2 * y1) + (x2 * y3 - x3 * y2) + (x3 * y0 - x0 * y3)\<bar> / 2"
  by (simp add: loop_area_def sum_upto_4 next_index_def pt_simps val_Fin)

text \<open>
  Claim C9. The vertical cut from \<open>(150, 0)\<close> to \<open>(150, 300)\<close> splits the square into two
  loops of four vertices, the corners of the rectangles \<open>[150, 300] \<times> [0, 300]\<close> and
  \<open>[0, 150] \<times> [0, 300]\<close>. The two rectangles together are the square, they share only the
  cut itself, which has no area, and each has the area \<open>300 \<times> 150\<close>.
\<close>

theorem cutPolygon_square_vertical_cut:
  "cutPolygon square [pt 150 0, pt 150 300] =
     Inr (rectangle 150 0 300 300, rotate 2 (rectangle 0 0 150 300))
   \<and> points square = rectangle 0 0 300 300
   \<and> rect_region 150 0 300 300 \<union> rect_region 0 0 150 300 = rect_region 0 0 300 300
   \<and> rect_region 150 0 300 300 \<inter> rect_region 0 0 150 300 = rect_region 150 0 150 300
   \<and> loop_area (rectangle 150 0 300 300) = 300 * 150
   \<and> loop_area (rotate 2 (rectangle 0 0 150 300)) = 300 * 150
   \<and> loop_area (rectangle 150 0 150 300) = 0
   \<and> loop_area (points square) = 300 * 300"
proof (intro conjI)
  show "cutPolygon square [pt 150 0, pt 150 300] =
     Inr (rectangle 150 0 300 300, rotate 2 (rectangle 0 0 150 300))"
    by (simp add: cut_vertical rectangle_def rotate_def rotate1_def eval_nat_numeral)
  show "points square = rectangle 0 0 300 300"
    by (simp add: square_def rectangle_def)
  show "rect_region 150 0 300 300 \<union> rect_region 0 0 150 300 = rect_region 0 0 300 300"
    by (rule rect_region_halves)
  show "rect_region 150 0 300 300 \<inter> rect_region 0 0 150 300 = rect_region 150 0 150 300"
    by (rule rect_region_halves)
  show "loop_area (rectangle 150 0 300 300) = 300 * 150"
    by (simp add: rectangle_def loop_area_4)
  show "loop_area (rotate 2 (rectangle 0 0 150 300)) = 300 * 150"
    by (simp add: rectangle_def rotate_def rotate1_def eval_nat_numeral loop_area_4)
  show "loop_area (rectangle 150 0 150 300) = 0"
    by (simp add: rectangle_def loop_area_4)
  show "loop_area (points square) = 300 * 300"
    by (simp add: square_def loop_area_4)
qed

text \<open>
  Claim C4 does not hold of the code. The tests \<open>startPoint != polyPoints[i]\<close> and
  \<open>endPoint != polyPoints[i]\<close> compare two different objects and are always true, so a
  snapped point is pushed even when it has the coordinates of vertex \<open>i\<close>. The diagonal
  cut from \<open>(0, 0)\<close> to \<open>(300, 300)\<close> snaps to vertex \<open>0\<close> with index \<open>0\<close> and to vertex
  \<open>2\<close> with index \<open>2\<close>; both vertices appear twice in the augmented list and in the
  output loops.
\<close>

theorem cutPolygon_coincident_vertex_duplicated:
  "closestPointOnPolygon square (pt 0 0) = (scene_vertex square 0, 0)
   \<and> closestPointOnPolygon square (pt 300 300) = (scene_vertex square 2, 2)
   \<and> map snd (cut_vertices square [pt 0 0, pt 300 300]) =
       [pt 0 0, pt 0 0, pt 300 0,
        pt 300 300, pt 300 300, pt 0 300]
   \<and> cutPolygon square [pt 0 0, pt 300 300] =
       Inr ([pt 0 0, pt 300 0, pt 300 300, pt 300 300],
            [pt 300 300, pt 0 300, pt 0 0, pt 0 0])"
proof -
  have "scene_vertex square 2 = pt 300 300"
    by (simp add: scene_vertex_def square_def pt_simps fl_eval pt_rec)
  then show ?thesis
    by (simp add: square_0_0 square_300_300 square_facts vertices_diagonal cut_diagonal)
qed

section \<open>Splitting: the error condition\<close>

text \<open>
  Claim C7. \<open>cutPolygon\<close> fails with \<open>InvalidCut\<close> exactly when the cut path has fewer than
  two points. The test comes first: the failure does not depend on the polygon, nothing
  is returned besides the error, and a cut path of one point fails.
\<close>

theorem cutPolygon_InvalidCut_iff:
  "(cutPolygon poly cutPath = Inl InvalidCut \<longleftrightarrow> length cutPath < 2)
   \<and> (isl (cutPolygon poly cutPath) \<longleftrightarrow> length cutPath < 2)
   \<and> cutPolygon poly [p] = Inl InvalidCut"
  by (auto simp: cutPolygon_def Let_def split: prod.splits)

end
